theory Spec2Isabelle
  imports Complex_Main
begin

section \<open>The loan-capacity engine of LoanCapacity.tsx\<close>

text \<open>
  The engine is the group of pure functions at the head of
  \<^verbatim>\<open>src/components/LoanCapacity/LoanCapacity.tsx\<close> together with the derived
  state of the \<^verbatim>\<open>LoanCapacity\<close> component that chains them.

  Numbers. A TypeScript \<^verbatim>\<open>number\<close> that carries money or a rate is read in two
  ways. The first reading is exact: a \<^typ>\<open>real\<close>, every \<^verbatim>\<open>+ - * /\<close> of the source
  the exact operation. It serves the properties that are about which operations the
  code applies, to what, and in which order, and those hold of the doubles as well,
  each expression rounding the same on both sides. The second reading is IEEE-754
  double precision (\<open>f64\<close> below), for the properties that compare the results of
  different expressions. A \<^verbatim>\<open>number\<close> that counts years or months (\<^verbatim>\<open>years\<close>,
  \<^verbatim>\<open>durationYears\<close>, \<^verbatim>\<open>totalMonths\<close>, loop counters) is an \<^typ>\<open>int\<close>: the form
  feeds whole numbers only (the slider is restricted to its marks, the years input
  has \<^verbatim>\<open>allowDecimal={false}\<close>). On such values \<^verbatim>\<open>Number(x) || 0\<close> is \<open>x\<close> itself.
\<close>

subsection \<open>Types\<close>

record RatePeriod =
  years :: int
  rate :: real

record AmortizationRow =
  month :: int
  capitalBefore :: real
  interest :: real
  amortization :: real
  installment :: real
  capitalAfter :: real

datatype RateMode = Single | Multi

text \<open>Assigning a negative number to \<^verbatim>\<open>Array.prototype.length\<close> throws.\<close>

datatype error = RangeError

subsection \<open>Constants and utility functions\<close>

definition MAX_LOAN_DURATION_YEARS :: int where
  "MAX_LOAN_DURATION_YEARS = 25"

definition DEBT_TO_INCOME_RATIO :: real where
  "DEBT_TO_INCOME_RATIO = 1 / 3"

definition DEFAULT_RATE :: real where
  "DEFAULT_RATE = 38 / 10"

definition toMonthlyRate :: "real \<Rightarrow> real" where
  "toMonthlyRate annualRate = (if annualRate > 0 then annualRate / 100 / 12 else 0)"

definition sumPeriodYears :: "RatePeriod list \<Rightarrow> int" where
  "sumPeriodYears periods = foldl (\<lambda>sum p. sum + years p) 0 periods"

subsection \<open>Calculation functions\<close>

definition calculateMaxMonthlyInstallment :: "real \<Rightarrow> real" where
  "calculateMaxMonthlyInstallment monthlyIncome =
     (if monthlyIncome > 0 then monthlyIncome * DEBT_TO_INCOME_RATIO else 0)"

text \<open>\<^verbatim>\<open>Math.pow(1 + monthlyRate, -totalMonths)\<close> has a whole exponent: \<open>powi\<close>.\<close>

definition calculateLoanPrincipalWithSingleRate :: "real \<Rightarrow> real \<Rightarrow> int \<Rightarrow> real" where
  "calculateLoanPrincipalWithSingleRate maxInstallment annualRate totalMonths =
     (if totalMonths \<le> 0 \<or> maxInstallment \<le> 0 then 0
      else let monthlyRate = toMonthlyRate annualRate in
        if monthlyRate = 0 then maxInstallment * of_int totalMonths
        else let denominator = monthlyRate / (1 - (1 + monthlyRate) powi (- totalMonths))
             in maxInstallment / denominator)"

text \<open>
  The multi-rate walk. The three \<^verbatim>\<open>let\<close> variables of the source are the state
  \<open>(pvFactorSum, discountFactor, monthsCount)\<close>. \<open>multiInner\<close> is the inner
  \<^verbatim>\<open>for (let m = 0; m < months; m++)\<close> with its \<^verbatim>\<open>break\<close>; \<open>multiOuter\<close> is the
  \<^verbatim>\<open>for (const period of periods)\<close> with the \<^verbatim>\<open>break\<close> after the inner loop.
\<close>

function multiInner :: "real \<Rightarrow> int \<Rightarrow> int \<Rightarrow> int \<Rightarrow> real \<times> real \<times> int \<Rightarrow> real \<times> real \<times> int" where
  "multiInner monthlyRate months totalMonths m (pvFactorSum, discountFactor, monthsCount) =
     (if m < months then
        if monthsCount \<ge> totalMonths then (pvFactorSum, discountFactor, monthsCount)
        else let discountFactor = discountFactor / (1 + monthlyRate);
                 pvFactorSum = pvFactorSum + discountFactor;
                 monthsCount = monthsCount + 1
             in multiInner monthlyRate months totalMonths (m + 1)
                  (pvFactorSum, discountFactor, monthsCount)
      else (pvFactorSum, discountFactor, monthsCount))"
  by pat_completeness auto
termination
  by (relation "measure (\<lambda>(monthlyRate, months, totalMonths, m, s). nat (months - m))") auto

declare multiInner.simps [simp del]

fun multiOuter :: "int \<Rightarrow> RatePeriod list \<Rightarrow> real \<times> real \<times> int \<Rightarrow> real \<times> real \<times> int" where
  "multiOuter totalMonths [] s = s"
| "multiOuter totalMonths (period # rest) s =
     (let months = years period * 12;
          monthlyRate = toMonthlyRate (rate period);
          s' = multiInner monthlyRate months totalMonths 0 s
      in if snd (snd s') \<ge> totalMonths then s' else multiOuter totalMonths rest s')"

definition calculateLoanPrincipalWithMultipleRates :: "real \<Rightarrow> RatePeriod list \<Rightarrow> int \<Rightarrow> real" where
  "calculateLoanPrincipalWithMultipleRates maxInstallment periods totalMonths =
     (if totalMonths \<le> 0 \<or> maxInstallment \<le> 0 \<or> length periods = 0 then 0
      else let (pvFactorSum, discountFactor, monthsCount) = multiOuter totalMonths periods (0, 1, 0)
           in maxInstallment * pvFactorSum)"

text \<open>
  The rate-vector expansion. In multi mode the state is \<open>(monthlyRates, monthIdx)\<close>;
  \<^verbatim>\<open>push\<close> appends. An array holds at most \<open>2^32 - 1\<close> elements: in single mode
  \<^verbatim>\<open>monthlyRates.length = totalMonths\<close> throws a \<^verbatim>\<open>RangeError\<close> for a negative length
  and for a length of \<open>2^32\<close> or more, and \<^verbatim>\<open>fill\<close> then writes the rate into every
  slot; in multi mode the \<^verbatim>\<open>push\<close> that would make the length \<open>2^32\<close> throws
  it, so a walk that pushes \<open>2^32\<close> elements or more ends in the error.
\<close>

function ratesInner :: "real \<Rightarrow> int \<Rightarrow> int \<Rightarrow> int \<Rightarrow> real list \<times> int \<Rightarrow> real list \<times> int" where
  "ratesInner mrate months totalMonths m (monthlyRates, monthIdx) =
     (if m < months \<and> monthIdx < totalMonths then
        ratesInner mrate months totalMonths (m + 1) (monthlyRates @ [mrate], monthIdx + 1)
      else (monthlyRates, monthIdx))"
  by pat_completeness auto
termination
  by (relation "measure (\<lambda>(mrate, months, totalMonths, m, s). nat (months - m))") auto

declare ratesInner.simps [simp del]

fun ratesOuter :: "int \<Rightarrow> RatePeriod list \<Rightarrow> real list \<times> int \<Rightarrow> real list \<times> int" where
  "ratesOuter totalMonths [] s = s"
| "ratesOuter totalMonths (period # rest) s =
     (let months = years period * 12;
          mrate = toMonthlyRate (rate period);
          s' = ratesInner mrate months totalMonths 0 s
      in if snd s' \<ge> totalMonths then s' else ratesOuter totalMonths rest s')"

definition buildMonthlyRatesArray ::
    "RateMode \<Rightarrow> RatePeriod list \<Rightarrow> real \<Rightarrow> int \<Rightarrow> error + real list" where
  "buildMonthlyRatesArray rateMode periods singleRate totalMonths =
     (if rateMode = Multi then
        let (monthlyRates, monthIdx) = ratesOuter totalMonths periods ([], 0)
        in if 2 ^ 32 \<le> length monthlyRates then Inl RangeError else Inr monthlyRates
      else let mrate = toMonthlyRate singleRate in
        if totalMonths < 0 \<or> 2 ^ 32 \<le> totalMonths then Inl RangeError
        else Inr (replicate (nat totalMonths) mrate))"

text \<open>
  The amortization builder. \<^verbatim>\<open>monthlyRates[month - 1] || 0\<close> reads 0 for an index
  outside the array (and a stored 0 stays 0): \<open>rateAt\<close>. \<open>amortLoop\<close> is the
  \<^verbatim>\<open>for (let month = 1; month <= totalMonths; month++)\<close> with its \<^verbatim>\<open>break\<close>; its
  state is \<open>remainingCapital\<close> and the \<open>table\<close> pushed to.
\<close>

definition rateAt :: "real list \<Rightarrow> int \<Rightarrow> real" where
  "rateAt monthlyRates i = (if 0 \<le> i \<and> i < int (length monthlyRates) then monthlyRates ! nat i else 0)"

function amortLoop ::
    "real \<Rightarrow> real list \<Rightarrow> int \<Rightarrow> int \<Rightarrow> real \<Rightarrow> AmortizationRow list \<Rightarrow> AmortizationRow list" where
  "amortLoop maxInstallment monthlyRates totalMonths month' remainingCapital table =
     (if month' \<le> totalMonths then
        let capitalBefore = remainingCapital;
            mrate = rateAt monthlyRates (month' - 1);
            interest = capitalBefore * mrate;
            amortization = maxInstallment - interest;
            capitalAfter = max (capitalBefore - amortization) 0;
            table = table @ [\<lparr>month = month', capitalBefore = capitalBefore, interest = interest,
                       amortization = amortization, installment = maxInstallment,
                       capitalAfter = capitalAfter\<rparr>];
            remainingCapital = capitalAfter
        in if remainingCapital \<le> 0 then table
           else amortLoop maxInstallment monthlyRates totalMonths (month' + 1) remainingCapital table
      else table)"
  by pat_completeness auto
termination
  by (relation "measure (\<lambda>(maxInstallment, monthlyRates, totalMonths, month', c, t).
        nat (totalMonths + 1 - month'))") auto

declare amortLoop.simps [simp del]

definition buildAmortizationTable ::
    "real \<Rightarrow> real \<Rightarrow> real list \<Rightarrow> int \<Rightarrow> AmortizationRow list" where
  "buildAmortizationTable maxLoanPrincipal maxInstallment monthlyRates totalMonths =
     (if maxLoanPrincipal \<le> 0 \<or> totalMonths \<le> 0 then []
      else amortLoop maxInstallment monthlyRates totalMonths 1 maxLoanPrincipal [])"

subsection \<open>The same functions in IEEE-754 double precision\<close>

text \<open>
  Where a property turns on rounding, the capacity functions are read a second time
  with the arithmetic a JavaScript \<^verbatim>\<open>number\<close> has. A value is a finite real, an
  infinity or NaN. \<open>round64\<close> sends a real to the nearest binary64 value, ties to
  the even significand: 53 significant bits, the spacing \<open>2 powi k\<close> with
  \<open>k = max (binade - 52) (- 1074)\<close> (so subnormals are covered), and an infinity from
  \<open>2 powi 1024\<close> on. The two zeros are not told apart (no function below divides by
  a negative zero). \<open>fadd\<close>, \<open>fsub\<close>, \<open>fmul\<close>, \<open>fdiv\<close> are the correctly rounded
  operations with their special cases. \<^verbatim>\<open>Math.pow\<close> on a whole exponent is \<open>fpow\<close>,
  the correctly rounded power; ECMAScript leaves its last bit to the implementation,
  and the statements below evaluate it only where the power is itself a double
  (\<open>1 powi n\<close> and \<open>2 powi n\<close>). Month counts stay integers, and a whole number below
  \<open>2 ^ 53\<close> is its own double.
\<close>

datatype f64 = Fin real | PInf | NInf | NaN

function binadeUp :: "real \<Rightarrow> int \<Rightarrow> int" where
  "binadeUp a e = (if a < 2 powi (e + 1) \<or> 1024 \<le> e then e else binadeUp a (e + 1))"
  by pat_completeness auto
termination
  by (relation "measure (\<lambda>(a, e). nat (1024 - e))") auto

declare binadeUp.simps [simp del]

function binadeDown :: "real \<Rightarrow> int \<Rightarrow> int" where
  "binadeDown a e = (if 2 powi e \<le> a \<or> e \<le> - 1074 then e else binadeDown a (e - 1))"
  by pat_completeness auto
termination
  by (relation "measure (\<lambda>(a, e). nat (e + 1074))") auto

declare binadeDown.simps [simp del]

definition binade :: "real \<Rightarrow> int" where
  "binade a = (if 1 \<le> a then binadeUp a 0 else binadeDown a (- 1))"

definition roundHalfEven :: "real \<Rightarrow> int" where
  "roundHalfEven y =
     (let f = \<lfloor>y\<rfloor>; d = y - of_int f
      in if d < 1 / 2 then f else if 1 / 2 < d then f + 1 else if even f then f else f + 1)"

definition round64 :: "real \<Rightarrow> f64" where
  "round64 x =
     (if x = 0 then Fin 0
      else let a = \<bar>x\<bar>;
               k = max (binade a - 52) (- 1074);
               v = of_int (roundHalfEven (a / 2 powi k)) * 2 powi k
           in if 2 powi 1024 \<le> v then (if 0 < x then PInf else NInf)
              else Fin (if 0 < x then v else - v))"




definition inf_of_sign :: "bool \<Rightarrow> f64" where
  "inf_of_sign pos = (if pos then PInf else NInf)"

fun fmul :: "f64 \<Rightarrow> f64 \<Rightarrow> f64" where
  "fmul (Fin a) (Fin b) = round64 (a * b)"
| "fmul NaN y = NaN"
| "fmul x NaN = NaN"
| "fmul (Fin a) PInf = (if a = 0 then NaN else inf_of_sign (0 < a))"
| "fmul (Fin a) NInf = (if a = 0 then NaN else inf_of_sign (a < 0))"
| "fmul PInf (Fin b) = (if b = 0 then NaN else inf_of_sign (0 < b))"
| "fmul NInf (Fin b) = (if b = 0 then NaN else inf_of_sign (b < 0))"
| "fmul PInf PInf = PInf"
| "fmul NInf NInf = PInf"
| "fmul PInf NInf = NInf"
| "fmul NInf PInf = NInf"

fun fdiv :: "f64 \<Rightarrow> f64 \<Rightarrow> f64" where
  "fdiv (Fin a) (Fin b) =
     (if b = 0 then (if a = 0 then NaN else inf_of_sign (0 < a)) else round64 (a / b))"
| "fdiv NaN y = NaN"
| "fdiv x NaN = NaN"
| "fdiv (Fin a) PInf = Fin 0"
| "fdiv (Fin a) NInf = Fin 0"
| "fdiv PInf (Fin b) = inf_of_sign (0 \<le> b)"
| "fdiv NInf (Fin b) = inf_of_sign (b < 0)"
| "fdiv PInf y = NaN"
| "fdiv NInf y = NaN"

fun fgt0 :: "f64 \<Rightarrow> bool" where
  "fgt0 (Fin a) = (0 < a)"
| "fgt0 PInf = True"
| "fgt0 NInf = False"
| "fgt0 NaN = False"




definition DEBT_TO_INCOME_RATIO64 :: f64 where
  "DEBT_TO_INCOME_RATIO64 = fdiv (Fin 1) (Fin 3)"

definition calculateMaxMonthlyInstallment64 :: "f64 \<Rightarrow> f64" where
  "calculateMaxMonthlyInstallment64 monthlyIncome =
     (if fgt0 monthlyIncome then fmul monthlyIncome DEBT_TO_INCOME_RATIO64 else Fin 0)"






subsection \<open>The derived state of the component\<close>

text \<open>
  What \<^verbatim>\<open>form.getValues()\<close> and the \<^verbatim>\<open>rateMode\<close> state hold is the record
  \<open>LoanInputs\<close>; each \<^verbatim>\<open>const\<close> of the component body is a function of it.
\<close>

record LoanInputs =
  rateMode :: RateMode
  monthlyIncome :: real
  interestRate :: real
  durationYears :: int
  ratePeriods :: "RatePeriod list"

definition totalMonths :: "LoanInputs \<Rightarrow> int" where
  "totalMonths inp = durationYears inp * 12"

definition periodsActive :: "LoanInputs \<Rightarrow> bool" where
  "periodsActive inp = (length (ratePeriods inp) > 0)"

definition usePeriods :: "LoanInputs \<Rightarrow> bool" where
  "usePeriods inp = (rateMode inp = Multi \<and> periodsActive inp)"

definition periodsYearsTotal :: "LoanInputs \<Rightarrow> int" where
  "periodsYearsTotal inp = (if usePeriods inp then sumPeriodYears (ratePeriods inp) else 0)"

definition periodsMismatch :: "LoanInputs \<Rightarrow> bool" where
  "periodsMismatch inp = (usePeriods inp \<and> periodsYearsTotal inp \<noteq> durationYears inp)"

definition maxMonthlyInstallment :: "LoanInputs \<Rightarrow> real" where
  "maxMonthlyInstallment inp = calculateMaxMonthlyInstallment (monthlyIncome inp)"

definition maxLoanPrincipal :: "LoanInputs \<Rightarrow> real" where
  "maxLoanPrincipal inp =
     (if maxMonthlyInstallment inp \<le> 0 then 0
      else if usePeriods inp \<and> \<not> periodsMismatch inp then
        calculateLoanPrincipalWithMultipleRates (maxMonthlyInstallment inp) (ratePeriods inp) (totalMonths inp)
      else calculateLoanPrincipalWithSingleRate (maxMonthlyInstallment inp) (interestRate inp) (totalMonths inp))"

definition monthlyRates :: "LoanInputs \<Rightarrow> error + real list" where
  "monthlyRates inp =
     buildMonthlyRatesArray (if usePeriods inp \<and> \<not> periodsMismatch inp then Multi else Single)
       (ratePeriods inp) (interestRate inp) (totalMonths inp)"

definition amortizationTable :: "LoanInputs \<Rightarrow> error + AmortizationRow list" where
  "amortizationTable inp =
     (case monthlyRates inp of
        Inl e \<Rightarrow> Inl e
      | Inr rs \<Rightarrow> Inr (buildAmortizationTable (maxLoanPrincipal inp) (maxMonthlyInstallment inp) rs (totalMonths inp)))"

subsection \<open>The discounted-cashflow reading of the multi-rate walk\<close>

text \<open>
  What section 4.3 of the specification describes, as a second definition to compare
  the loops with. \<open>periodMonthlyRates\<close> expands the periods, in order, into one
  monthly rate per month (\<open>years * 12\<close> entries a period). \<open>discountFactors d rs\<close>
  lists the discount factor after each month of \<open>rs\<close>: it starts from \<open>d\<close>, is
  divided by \<open>1 + r\<close> in a month of rate \<open>r\<close>, and is carried from month to month.
\<close>

definition periodMonthlyRates :: "RatePeriod list \<Rightarrow> real list" where
  "periodMonthlyRates periods =
     concat (map (\<lambda>p. replicate (nat (years p * 12)) (toMonthlyRate (rate p))) periods)"

fun discountFactors :: "real \<Rightarrow> real list \<Rightarrow> real list" where
  "discountFactors d [] = []"
| "discountFactors d (r # rs) = (d / (1 + r)) # discountFactors (d / (1 + r)) rs"

text \<open>One month of the walk after another, on the state of the source's loops.\<close>

fun walkMonths :: "real \<times> real \<times> int \<Rightarrow> real list \<Rightarrow> real \<times> real \<times> int" where
  "walkMonths s [] = s"
| "walkMonths (pv, df, mc) (r # rs) = walkMonths (pv + df / (1 + r), df / (1 + r), mc + 1) rs"

text \<open>
  The ledger rows that start at month \<open>m\<close> with capital \<open>cap\<close>: each row follows the
  formulas of section 4.5 and hands its \<open>capitalAfter\<close> to the next row.
\<close>

fun rowsFrom :: "real \<Rightarrow> real list \<Rightarrow> int \<Rightarrow> real \<Rightarrow> AmortizationRow list \<Rightarrow> bool" where
  "rowsFrom inst rs m cap [] = True"
| "rowsFrom inst rs m cap (row # rest) =
     (month row = m \<and> capitalBefore row = cap \<and>
      interest row = cap * rateAt rs (m - 1) \<and>
      amortization row = inst - interest row \<and>
      installment row = inst \<and>
      capitalAfter row = max (cap - amortization row) 0 \<and>
      rowsFrom inst rs (m + 1) (capitalAfter row) rest)"

text \<open>The row that one turn of the amortization loop pushes, at month \<open>m\<close> and capital \<open>cap\<close>.\<close>

definition newRow :: "real \<Rightarrow> real list \<Rightarrow> int \<Rightarrow> real \<Rightarrow> AmortizationRow" where
  "newRow inst rs m cap =
     \<lparr>month = m, capitalBefore = cap, interest = cap * rateAt rs (m - 1),
      amortization = inst - cap * rateAt rs (m - 1), installment = inst,
      capitalAfter = max (cap - (inst - cap * rateAt rs (m - 1))) 0\<rparr>"

section \<open>Properties\<close>

subsection \<open>The multi-rate walk, month by month\<close>

lemma walkMonths_append: "walkMonths (walkMonths s xs) ys = walkMonths s (xs @ ys)"
  by (induction s xs rule: walkMonths.induct) auto

lemma walkMonths_count: "snd (snd (walkMonths s rs)) = snd (snd s) + int (length rs)"
  by (induction s rs rule: walkMonths.induct) auto

lemma walkMonths_sum: "fst (walkMonths (pv, df, mc) rs) = pv + sum_list (discountFactors df rs)"
  by (induction rs arbitrary: pv df mc) auto

lemma multiInner_walk:
  "multiInner r months tm m (pv, df, mc) =
     walkMonths (pv, df, mc) (replicate (min (nat (months - m)) (nat (tm - mc))) r)"
proof (induction r months tm m "(pv, df, mc)" arbitrary: pv df mc rule: multiInner.induct)
  case (1 r months tm m pv df mc)
  show ?case
  proof (cases "m < months \<and> mc < tm")
    case True
    then have a: "nat (months - m) = Suc (nat (months - (m + 1)))"
      and b: "nat (tm - mc) = Suc (nat (tm - (mc + 1)))" by auto
    from True have "multiInner r months tm m (pv, df, mc) =
        multiInner r months tm (m + 1) (pv + df / (1 + r), df / (1 + r), mc + 1)"
      by (subst multiInner.simps) (simp add: Let_def)
    also have "\<dots> = walkMonths (pv + df / (1 + r), df / (1 + r), mc + 1)
        (replicate (min (nat (months - (m + 1))) (nat (tm - (mc + 1)))) r)"
      using True by (intro "1.hyps") (auto simp: Let_def)
    finally show ?thesis by (simp add: a b)
  next
    case False
    then have "min (nat (months - m)) (nat (tm - mc)) = 0" by auto
    moreover from False have "multiInner r months tm m (pv, df, mc) = (pv, df, mc)"
      by (subst multiInner.simps) auto
    ultimately show ?thesis by simp
  qed
qed

lemma periodMonthlyRates_Cons:
  "periodMonthlyRates (p # ps) =
     replicate (nat (years p * 12)) (toMonthlyRate (rate p)) @ periodMonthlyRates ps"
  by (simp add: periodMonthlyRates_def)

lemma periodMonthlyRates_Nil: "periodMonthlyRates [] = []"
  by (simp add: periodMonthlyRates_def)

lemma multiOuter_walk:
  "multiOuter tm ps s = walkMonths s (take (nat (tm - snd (snd s))) (periodMonthlyRates ps))"
proof (induction ps arbitrary: s)
  case Nil
  show ?case by (simp add: periodMonthlyRates_Nil)
next
  case (Cons p ps)
  obtain pv df mc where s: "s = (pv, df, mc)" by (cases s) auto
  define a where "a = nat (years p * 12)"
  define b where "b = nat (tm - mc)"
  define r where "r = toMonthlyRate (rate p)"
  define s' where "s' = walkMonths s (replicate (min a b) r)"
  have inner: "multiInner r (years p * 12) tm 0 s = s'"
    by (simp add: s multiInner_walk s'_def a_def b_def)
  have cnt: "snd (snd s') = mc + int (min a b)"
    by (simp add: s'_def walkMonths_count s)
  have tk: "take b (periodMonthlyRates (p # ps)) =
      replicate (min a b) r @ take (b - a) (periodMonthlyRates ps)"
    by (simp add: periodMonthlyRates_Cons a_def r_def min.commute)
  show ?case
  proof (cases "snd (snd s') \<ge> tm")
    case True
    then have "b - a = 0" using cnt by (auto simp: b_def min_def split: if_splits)
    moreover have "multiOuter tm (p # ps) s = s'"
      using True inner by (simp add: Let_def r_def)
    ultimately show ?thesis
      using tk by (simp add: s'_def s b_def)
  next
    case False
    then have lt: "a < b" using cnt by (auto simp: b_def min_def split: if_splits)
    have "multiOuter tm (p # ps) s = multiOuter tm ps s'"
      using False inner by (simp add: Let_def r_def)
    also have "\<dots> = walkMonths s' (take (nat (tm - snd (snd s'))) (periodMonthlyRates ps))"
      by (rule Cons.IH)
    also have "nat (tm - snd (snd s')) = b - a"
      using lt cnt by (simp add: b_def min_def)
    finally show ?thesis
      using tk by (simp add: s'_def walkMonths_append s b_def)
  qed
qed

lemma length_periodMonthlyRates:
  "\<forall>p\<in>set ps. 0 \<le> years p \<Longrightarrow>
     int (length (periodMonthlyRates ps)) = (\<Sum>p\<leftarrow>ps. years p * 12)"
  by (induction ps) (auto simp: periodMonthlyRates_Cons periodMonthlyRates_Nil)

lemma multiple_rates_as_sum:
  "calculateLoanPrincipalWithMultipleRates mi ps tm =
     (if tm \<le> 0 \<or> mi \<le> 0 \<or> ps = [] then 0
      else mi * sum_list (discountFactors 1 (take (nat tm) (periodMonthlyRates ps))))"
proof -
  let ?rs = "take (nat tm) (periodMonthlyRates ps)"
  obtain pv df mc where w: "walkMonths (0, 1, 0) ?rs = (pv, df, mc)"
    by (cases "walkMonths (0, 1, 0) ?rs") auto
  have "pv = sum_list (discountFactors 1 ?rs)"
    using walkMonths_sum [of 0 1 0 ?rs] w by simp
  then show ?thesis
    by (simp add: calculateLoanPrincipalWithMultipleRates_def multiOuter_walk w)
qed

subsection \<open>A constant rate: the closed form and its monotonicity\<close>








subsection \<open>The amortization loop, row by row\<close>

lemma amortLoop_unfold:
  "amortLoop inst rs tm m cap table =
     (if m \<le> tm then
        if capitalAfter (newRow inst rs m cap) \<le> 0 then table @ [newRow inst rs m cap]
        else amortLoop inst rs tm (m + 1) (capitalAfter (newRow inst rs m cap))
               (table @ [newRow inst rs m cap])
      else table)"
  by (subst amortLoop.simps) (simp add: Let_def newRow_def)

lemma amortLoop_table:
  "amortLoop inst rs tm m cap table = table @ amortLoop inst rs tm m cap []"
proof (induction "nat (tm + 1 - m)" arbitrary: m cap table)
  case 0
  then have "\<not> m \<le> tm" by simp
  then show ?case by (simp add: amortLoop_unfold)
next
  case (Suc n)
  then have m: "m \<le> tm" and n: "n = nat (tm + 1 - (m + 1))" by auto
  show ?case
  proof (cases "capitalAfter (newRow inst rs m cap) \<le> 0")
    case True
    then show ?thesis using m by (simp add: amortLoop_unfold)
  next
    case False
    let ?row = "newRow inst rs m cap"
    have "amortLoop inst rs tm m cap table =
        amortLoop inst rs tm (m + 1) (capitalAfter ?row) (table @ [?row])"
      using m False by (subst amortLoop_unfold) simp
    also have "\<dots> = (table @ [?row]) @ amortLoop inst rs tm (m + 1) (capitalAfter ?row) []"
      using n by (rule Suc.hyps(1))
    also have "\<dots> = table @ ([?row] @ amortLoop inst rs tm (m + 1) (capitalAfter ?row) [])"
      by simp
    also have "[?row] @ amortLoop inst rs tm (m + 1) (capitalAfter ?row) [] =
        amortLoop inst rs tm (m + 1) (capitalAfter ?row) [?row]"
      using Suc.hyps(1) [OF n, of "capitalAfter ?row" "[?row]"] by simp
    also have "\<dots> = amortLoop inst rs tm m cap []"
      using m False by (subst (2) amortLoop_unfold) simp
    finally show ?thesis .
  qed
qed

lemma amortLoop_rows:
  "amortLoop inst rs tm m cap [] =
     (if m \<le> tm then
        newRow inst rs m cap #
          (if capitalAfter (newRow inst rs m cap) \<le> 0 then []
           else amortLoop inst rs tm (m + 1) (capitalAfter (newRow inst rs m cap)) [])
      else [])"
proof -
  have "amortLoop inst rs tm (m + 1) (capitalAfter (newRow inst rs m cap)) [newRow inst rs m cap] =
      newRow inst rs m cap # amortLoop inst rs tm (m + 1) (capitalAfter (newRow inst rs m cap)) []"
    using amortLoop_table [of inst rs tm "m + 1" _ "[newRow inst rs m cap]"] by simp
  then show ?thesis
    by (subst amortLoop_unfold) simp
qed

lemma amortLoop_rowsFrom: "rowsFrom inst rs m cap (amortLoop inst rs tm m cap [])"
proof (induction "nat (tm + 1 - m)" arbitrary: m cap)
  case 0
  then show ?case by (simp add: amortLoop_rows)
next
  case (Suc n)
  then have "n = nat (tm + 1 - (m + 1))" by auto
  from Suc.hyps(1) [OF this] show ?case
    by (subst amortLoop_rows) (simp add: newRow_def)
qed

lemma amortLoop_length: "int (length (amortLoop inst rs tm m cap [])) \<le> max 0 (tm + 1 - m)"
proof (induction "nat (tm + 1 - m)" arbitrary: m cap)
  case 0
  then show ?case by (simp add: amortLoop_rows)
next
  case (Suc n)
  then have "n = nat (tm + 1 - (m + 1))" by auto
  from Suc.hyps(1) [OF this, of "capitalAfter (newRow inst rs m cap)"] Suc.hyps(2) show ?case
    by (subst amortLoop_rows) auto
qed

text \<open>Only the last row of the loop's output can have a capitalAfter that is not positive.\<close>

lemma amortLoop_stop:
  "Suc k < length (amortLoop inst rs tm m cap []) \<Longrightarrow>
     0 < capitalAfter (amortLoop inst rs tm m cap [] ! k)"
proof (induction "nat (tm + 1 - m)" arbitrary: m cap k)
  case 0
  then show ?case by (simp add: amortLoop_rows)
next
  case (Suc n)
  then have n: "n = nat (tm + 1 - (m + 1))" and m: "m \<le> tm" by auto
  let ?row = "newRow inst rs m cap"
  have pos: "0 < capitalAfter ?row"
    using Suc.prems m by (subst (asm) amortLoop_rows) (auto split: if_splits)
  then have eq: "amortLoop inst rs tm m cap [] = ?row # amortLoop inst rs tm (m + 1) (capitalAfter ?row) []"
    using m by (subst amortLoop_rows) simp
  show ?case
  proof (cases k)
    case 0
    then show ?thesis using pos eq by simp
  next
    case (Suc j)
    then have "Suc j < length (amortLoop inst rs tm (m + 1) (capitalAfter ?row) [])"
      using Suc.prems eq by simp
    from Suc.hyps(1) [OF n this] show ?thesis using eq Suc by simp
  qed
qed

text \<open>A table shorter than the months left ends on a row that pays the loan off.\<close>

lemma amortLoop_short:
  "m \<le> tm \<Longrightarrow> int (length (amortLoop inst rs tm m cap [])) < tm + 1 - m \<Longrightarrow>
     capitalAfter (last (amortLoop inst rs tm m cap [])) \<le> 0"
proof (induction "nat (tm + 1 - m)" arbitrary: m cap)
  case 0
  then show ?case by simp
next
  case (Suc n)
  then have n: "n = nat (tm + 1 - (m + 1))" by auto
  let ?row = "newRow inst rs m cap"
  show ?case
  proof (cases "capitalAfter ?row \<le> 0")
    case True
    then show ?thesis using Suc.prems by (subst amortLoop_rows) simp
  next
    case False
    then have eq: "amortLoop inst rs tm m cap [] = ?row # amortLoop inst rs tm (m + 1) (capitalAfter ?row) []"
      using Suc.prems by (subst amortLoop_rows) simp
    have len: "int (length (amortLoop inst rs tm (m + 1) (capitalAfter ?row) [])) < tm + 1 - (m + 1)"
      using Suc.prems(2) eq by simp
    then have m1: "m + 1 \<le> tm" by (smt (verit) of_nat_0_le_iff)
    then have ne: "amortLoop inst rs tm (m + 1) (capitalAfter ?row) [] \<noteq> []"
      by (subst amortLoop_rows) simp
    from Suc.hyps(1) [OF n m1 len] show ?thesis using eq ne by simp
  qed
qed

lemma amortLoop_nonempty: "m \<le> tm \<Longrightarrow> amortLoop inst rs tm m cap [] \<noteq> []"
  by (subst amortLoop_rows) simp

lemma rowsFrom_nth:
  "rowsFrom inst rs m cap rows \<Longrightarrow> k < length rows \<Longrightarrow>
     month (rows ! k) = m + int k \<and>
     interest (rows ! k) = capitalBefore (rows ! k) * rateAt rs (month (rows ! k) - 1) \<and>
     amortization (rows ! k) = inst - interest (rows ! k) \<and>
     installment (rows ! k) = inst \<and>
     capitalAfter (rows ! k) = max (capitalBefore (rows ! k) - amortization (rows ! k)) 0 \<and>
     capitalBefore (rows ! k) = (if k = 0 then cap else capitalAfter (rows ! (k - 1)))"
proof (induction rows arbitrary: m cap k)
  case Nil
  then show ?case by simp
next
  case (Cons row rows)
  show ?case
  proof (cases k)
    case 0
    then show ?thesis using Cons.prems by simp
  next
    case (Suc j)
    then have j: "j < length rows" using Cons.prems by simp
    have r: "rowsFrom inst rs (m + 1) (capitalAfter row) rows"
      using Cons.prems(1) unfolding rowsFrom.simps by blast
    from Cons.IH [OF r j] show ?thesis
      using Suc by (cases j) auto
  qed
qed

subsection \<open>The rate-vector expansion\<close>

lemma ratesInner_replicate:
  "ratesInner r months tm m (acc, idx) =
     (acc @ replicate (min (nat (months - m)) (nat (tm - idx))) r,
      idx + int (min (nat (months - m)) (nat (tm - idx))))"
proof (induction r months tm m "(acc, idx)" arbitrary: acc idx rule: ratesInner.induct)
  case (1 r months tm m acc idx)
  show ?case
  proof (cases "m < months \<and> idx < tm")
    case True
    then have a: "nat (months - m) = Suc (nat (months - (m + 1)))"
      and b: "nat (tm - idx) = Suc (nat (tm - (idx + 1)))" by auto
    from True have "ratesInner r months tm m (acc, idx) =
        ratesInner r months tm (m + 1) (acc @ [r], idx + 1)"
      by (subst ratesInner.simps) simp
    also have "\<dots> = ((acc @ [r]) @ replicate (min (nat (months - (m + 1))) (nat (tm - (idx + 1)))) r,
        (idx + 1) + int (min (nat (months - (m + 1))) (nat (tm - (idx + 1)))))"
      using True by (intro "1.hyps") auto
    finally show ?thesis by (simp add: a b replicate_app_Cons_same)
  next
    case False
    then have "min (nat (months - m)) (nat (tm - idx)) = 0" by auto
    moreover from False have "ratesInner r months tm m (acc, idx) = (acc, idx)"
      by (subst ratesInner.simps) auto
    ultimately show ?thesis by simp
  qed
qed

lemma ratesOuter_take:
  "ratesOuter tm ps (acc, idx) =
     (acc @ take (nat (tm - idx)) (periodMonthlyRates ps),
      idx + int (length (take (nat (tm - idx)) (periodMonthlyRates ps))))"
proof (induction ps arbitrary: acc idx)
  case Nil
  show ?case by (simp add: periodMonthlyRates_Nil)
next
  case (Cons p ps)
  define a where "a = nat (years p * 12)"
  define b where "b = nat (tm - idx)"
  define r where "r = toMonthlyRate (rate p)"
  have inner: "ratesInner r (years p * 12) tm 0 (acc, idx) =
      (acc @ replicate (min a b) r, idx + int (min a b))"
    by (simp add: ratesInner_replicate a_def b_def)
  have tk: "take b (periodMonthlyRates (p # ps)) =
      replicate (min a b) r @ take (b - a) (periodMonthlyRates ps)"
    by (simp add: periodMonthlyRates_Cons a_def r_def min.commute)
  show ?case
  proof (cases "idx + int (min a b) \<ge> tm")
    case True
    then have "b - a = 0" by (auto simp: b_def min_def split: if_splits)
    moreover have "ratesOuter tm (p # ps) (acc, idx) = (acc @ replicate (min a b) r, idx + int (min a b))"
      using True inner by (simp add: Let_def r_def)
    ultimately show ?thesis
      using tk by (simp add: b_def del: length_take)
  next
    case False
    then have lt: "a < b" by (auto simp: b_def min_def split: if_splits)
    have "ratesOuter tm (p # ps) (acc, idx) =
        ratesOuter tm ps (acc @ replicate (min a b) r, idx + int (min a b))"
      using False inner by (simp add: Let_def r_def)
    also have "\<dots> = ((acc @ replicate (min a b) r) @
          take (nat (tm - (idx + int (min a b)))) (periodMonthlyRates ps),
        (idx + int (min a b)) +
          int (length (take (nat (tm - (idx + int (min a b)))) (periodMonthlyRates ps))))"
      by (rule Cons.IH)
    also have "nat (tm - (idx + int (min a b))) = b - a"
      using lt by (simp add: b_def min_def)
    finally show ?thesis
      using tk by (simp add: b_def del: length_take)
  qed
qed

lemma buildMonthlyRatesArray_Multi:
  "buildMonthlyRatesArray Multi ps sr tm =
     (if 2 ^ 32 \<le> length (take (nat tm) (periodMonthlyRates ps)) then Inl RangeError
      else Inr (take (nat tm) (periodMonthlyRates ps)))"
  by (simp add: buildMonthlyRatesArray_def ratesOuter_take del: length_take)

lemma buildMonthlyRatesArray_Single:
  "buildMonthlyRatesArray Single ps sr tm =
     (if tm < 0 \<or> 2 ^ 32 \<le> tm then Inl RangeError
      else Inr (replicate (nat tm) (toMonthlyRate sr)))"
  by (simp add: buildMonthlyRatesArray_def)

lemma length_periodMonthlyRates_ge:
  "(\<Sum>p\<leftarrow>ps. years p * 12) \<le> int (length (periodMonthlyRates ps))"
  by (induction ps) (auto simp: periodMonthlyRates_Cons periodMonthlyRates_Nil)

subsection \<open>The period-sum check\<close>

lemma sumPeriodYears_foldl: "foldl (\<lambda>sum p. sum + years p) a ps = a + (\<Sum>p\<leftarrow>ps. years p)"
  by (induction ps arbitrary: a) auto

lemma sumPeriodYears_sum_list: "sumPeriodYears ps = (\<Sum>p\<leftarrow>ps. years p)"
  by (simp add: sumPeriodYears_def sumPeriodYears_foldl)

subsection \<open>Rounding to double precision\<close>

lemma two_powi_less_iff: "(2::real) powi m < 2 powi n \<longleftrightarrow> m < n"
proof
  assume "(2::real) powi m < 2 powi n"
  show "m < n"
  proof (rule ccontr)
    assume "\<not> m < n"
    then have "(2::real) powi n \<le> 2 powi m" by (intro power_int_increasing) auto
    with \<open>(2::real) powi m < 2 powi n\<close> show False by simp
  qed
next
  assume "m < n"
  then show "(2::real) powi m < 2 powi n" by (intro power_int_strict_increasing) auto
qed

lemma two_powi_le_iff: "(2::real) powi m \<le> 2 powi n \<longleftrightarrow> m \<le> n"
  using two_powi_less_iff [of n m] by (auto simp: not_less [symmetric])

lemma two_powi_Suc: "(2::real) powi (e + 1) = 2 * 2 powi e"
  by (simp add: power_int_add)

lemma binadeUp_spec:
  "2 powi e \<le> a \<Longrightarrow> a < 2 powi 1024 \<Longrightarrow>
     2 powi (binadeUp a e) \<le> a \<and> a < 2 powi (binadeUp a e + 1) \<and> binadeUp a e \<le> 1023"
proof (induction a e rule: binadeUp.induct)
  case (1 a e)
  have e: "e < 1024"
    using "1.prems" two_powi_less_iff [of e 1024] by linarith
  show ?case
  proof (cases "a < 2 powi (e + 1)")
    case True
    then have "binadeUp a e = e" by (subst binadeUp.simps) simp
    then show ?thesis using True "1.prems" e by simp
  next
    case False
    then have eq: "binadeUp a e = binadeUp a (e + 1)"
      using e by (subst binadeUp.simps) simp
    have "2 powi (binadeUp a (e + 1)) \<le> a \<and> a < 2 powi (binadeUp a (e + 1) + 1)
        \<and> binadeUp a (e + 1) \<le> 1023"
      using False e "1.prems" by (intro "1.IH") auto
    then show ?thesis by (simp add: eq)
  qed
qed

lemma binadeDown_spec:
  "a < 2 powi (e + 1) \<Longrightarrow> - 1074 \<le> e \<Longrightarrow>
     a < 2 powi (binadeDown a e + 1) \<and> - 1074 \<le> binadeDown a e \<and> binadeDown a e \<le> e
     \<and> (2 powi (binadeDown a e) \<le> a \<or> binadeDown a e = - 1074)"
proof (induction a e rule: binadeDown.induct)
  case (1 a e)
  show ?case
  proof (cases "2 powi e \<le> a \<or> e \<le> - 1074")
    case True
    then have "binadeDown a e = e" by (subst binadeDown.simps) simp
    then show ?thesis using True "1.prems" by auto
  next
    case False
    then have eq: "binadeDown a e = binadeDown a (e - 1)"
      by (subst binadeDown.simps) simp
    have "a < 2 powi (binadeDown a (e - 1) + 1) \<and> - 1074 \<le> binadeDown a (e - 1)
        \<and> binadeDown a (e - 1) \<le> e - 1
        \<and> (2 powi (binadeDown a (e - 1)) \<le> a \<or> binadeDown a (e - 1) = - 1074)"
      using False "1.prems" by (intro "1.IH") auto
    then show ?thesis by (auto simp: eq)
  qed
qed

lemma binade_spec:
  assumes "0 < a" "a < 2 powi 1024"
  shows "a < 2 powi (binade a + 1) \<and> - 1074 \<le> binade a \<and> binade a \<le> 1023
     \<and> (2 powi (binade a) \<le> a \<or> binade a = - 1074)"
proof (cases "1 \<le> a")
  case True
  then have "2 powi 0 \<le> a" by simp
  from binadeUp_spec [OF this assms(2)] have
    "2 powi (binadeUp a 0) \<le> a \<and> a < 2 powi (binadeUp a 0 + 1) \<and> binadeUp a 0 \<le> 1023" .
  moreover from this have "0 \<le> binadeUp a 0"
    using True two_powi_less_iff [of 0 "binadeUp a 0 + 1"] by simp
  ultimately show ?thesis using True by (simp add: binade_def)
next
  case False
  then have "a < 2 powi (- 1 + 1)" by simp
  from binadeDown_spec [OF this] False show ?thesis by (auto simp: binade_def)
qed

lemma binade_eq:
  assumes "2 powi e \<le> a" "a < 2 powi (e + 1)" "- 1074 \<le> e" "e \<le> 1023"
  shows "binade a = e"
proof -
  have "0 < (2::real) powi e" by simp
  then have pos: "0 < a" using assms(1) by linarith
  have "a < 2 powi 1024"
    using assms(2,4) two_powi_le_iff [of "e + 1" 1024] by simp
  from binade_spec [OF pos this] have
    up: "a < 2 powi (binade a + 1)" and lo: "2 powi (binade a) \<le> a \<or> binade a = - 1074"
    and lb: "- 1074 \<le> binade a" by auto
  have "2 powi e < (2::real) powi (binade a + 1)" using assms(1) up by simp
  then have 1: "e \<le> binade a" using two_powi_less_iff [of e "binade a + 1"] by simp
  have 2: "binade a \<le> e"
  proof (cases "2 powi (binade a) \<le> a")
    case True
    then have "2 powi (binade a) < (2::real) powi (e + 1)" using assms(2) by simp
    then show ?thesis using two_powi_less_iff [of "binade a" "e + 1"] by simp
  next
    case False
    then show ?thesis using lo assms(3) by simp
  qed
  from 1 2 show ?thesis by simp
qed

lemma binade_subnormal:
  assumes "0 < a" "a < 2 powi (- 1021)"
  shows "binade a \<le> - 1022"
proof -
  have "a < 2 powi 1024"
    using assms(2) two_powi_less_iff [of "- 1021" 1024] by simp
  from binade_spec [OF assms(1) this] have
    lo: "2 powi (binade a) \<le> a \<or> binade a = - 1074" by auto
  show ?thesis
  proof (cases "2 powi (binade a) \<le> a")
    case True
    then have "2 powi (binade a) < (2::real) powi (- 1021)" using assms(2) by simp
    then show ?thesis using two_powi_less_iff [of "binade a" "- 1021"] by simp
  next
    case False
    then show ?thesis using lo by simp
  qed
qed

lemma int_close_eq: "\<bar>real_of_int a - of_int b\<bar> < 1 \<Longrightarrow> a = b"
  by linarith

lemma roundHalfEven_near:
  assumes "\<bar>y - of_int m\<bar> < 1 / 2"
  shows "roundHalfEven y = m"
proof -
  have f: "of_int \<lfloor>y\<rfloor> \<le> y" "y < of_int \<lfloor>y\<rfloor> + 1" by linarith+
  consider "y - of_int \<lfloor>y\<rfloor> < 1 / 2" | "1 / 2 < y - of_int \<lfloor>y\<rfloor>"
    | "y - of_int \<lfloor>y\<rfloor> = 1 / 2" by linarith
  then show ?thesis
  proof cases
    case 1
    then have "\<bar>real_of_int \<lfloor>y\<rfloor> - of_int m\<bar> < 1" using assms f by linarith
    then have "\<lfloor>y\<rfloor> = m" by (rule int_close_eq)
    then show ?thesis using 1 by (simp add: roundHalfEven_def Let_def)
  next
    case 2
    then have "\<bar>real_of_int \<lfloor>y\<rfloor> + 1 - of_int m\<bar> < 1" using assms f by linarith
    then have "\<bar>real_of_int (\<lfloor>y\<rfloor> + 1) - of_int m\<bar> < 1" by simp
    then have "\<lfloor>y\<rfloor> + 1 = m" by (rule int_close_eq)
    then show ?thesis using 2 by (auto simp: roundHalfEven_def Let_def)
  next
    case 3
    then have a: "\<bar>real_of_int \<lfloor>y\<rfloor> - of_int m\<bar> < 1"
      and "\<bar>real_of_int \<lfloor>y\<rfloor> + 1 - of_int m\<bar> < 1"
      using assms by linarith+
    then have b: "\<bar>real_of_int (\<lfloor>y\<rfloor> + 1) - of_int m\<bar> < 1" by simp
    have "\<lfloor>y\<rfloor> = m" using a by (rule int_close_eq)
    moreover have "\<lfloor>y\<rfloor> + 1 = m" using b by (rule int_close_eq)
    ultimately show ?thesis by simp
  qed
qed

lemma roundHalfEven_int [simp]: "roundHalfEven (of_int m) = m"
  by (simp add: roundHalfEven_def)

lemma roundHalfEven_error: "\<bar>of_int (roundHalfEven y) - y\<bar> \<le> 1 / 2"
  unfolding roundHalfEven_def Let_def
  by (auto split: if_splits)

lemma ulp_exponent:
  assumes "0 < x" "- 1074 \<le> k" "k \<le> 971" "x < 2 powi (k + 53)"
    "k = - 1074 \<or> 2 powi (k + 52) \<le> x"
  shows "max (binade x - 52) (- 1074) = k"
proof (cases "2 powi (k + 52) \<le> x")
  case True
  then have "binade x = k + 52"
    using assms by (intro binade_eq) (auto simp: algebra_simps)
  then show ?thesis using assms(2) by simp
next
  case False
  then have k: "k = - 1074" using assms(5) by simp
  then have "x < 2 powi (- 1021)" using assms(4) by simp
  from binade_subnormal [OF assms(1) this] show ?thesis using k by simp
qed

lemma round64_near:
  assumes "0 < x" "- 1074 \<le> k" "k \<le> 971" "x < 2 powi (k + 53)"
    "k = - 1074 \<or> 2 powi (k + 52) \<le> x"
    "\<bar>x / 2 powi k - of_int m\<bar> < 1 / 2"
  shows "round64 x =
     (if 2 powi 1024 \<le> real_of_int m * 2 powi k then PInf else Fin (real_of_int m * 2 powi k))"
proof -
  have k: "max (binade x - 52) (- 1074) = k"
    using assms(1-5) by (rule ulp_exponent)
  have m: "roundHalfEven (x / 2 powi k) = m"
    using assms(6) by (rule roundHalfEven_near)
  show ?thesis
    using assms(1) by (simp add: round64_def Let_def k m del: power_int_numeral)
qed

lemma round64_exact:
  assumes "0 < m" "m < 2 ^ 53" "- 1074 \<le> k" "k \<le> 971"
  shows "round64 (of_int m * 2 powi k) = Fin (of_int m * 2 powi k)"
proof -
  let ?x = "real_of_int m * 2 powi k"
  have pos: "0 < ?x" using assms(1) by simp
  have "real_of_int m < 2 ^ 53" using assms(2) by (metis of_int_less_numeral_power_cancel_iff)
  then have "?x < 2 ^ 53 * 2 powi k" by (intro mult_strict_right_mono) auto
  also have "\<dots> = 2 powi (k + 53)" by (simp add: power_int_add)
  finally have up: "?x < 2 powi (k + 53)" .
  have lt: "?x < 2 powi 1024"
    using up two_powi_le_iff [of "k + 53" 1024] assms(4) by simp
  define k' where "k' = max (binade ?x - 52) (- 1074)"
  from binade_spec [OF pos lt] have
    lo: "2 powi (binade ?x) \<le> ?x \<or> binade ?x = - 1074" by auto
  have le: "k' \<le> k"
  proof (cases "2 powi (binade ?x) \<le> ?x")
    case True
    then have "2 powi (binade ?x) < (2::real) powi (k + 53)" using up by simp
    then have "binade ?x < k + 53" by (rule iffD1 [OF two_powi_less_iff])
    then show ?thesis using assms(3) by (simp add: k'_def)
  next
    case False
    then show ?thesis using lo assms(3) by (simp add: k'_def)
  qed
  have "?x / 2 powi k' = of_int m * 2 powi (k - k')"
    by (simp add: power_int_diff)
  also have "2 powi (k - k') = (2::real) ^ nat (k - k')"
    using le by (simp add: power_int_def)
  also have "of_int m * (2::real) ^ nat (k - k') = of_int (m * 2 ^ nat (k - k'))" by simp
  finally have q: "?x / 2 powi k' = of_int (m * 2 ^ nat (k - k'))" .
  have r: "of_int (roundHalfEven (?x / 2 powi k')) * 2 powi k' = ?x"
  proof -
    have "roundHalfEven (?x / 2 powi k') = m * 2 ^ nat (k - k')"
      by (simp only: q roundHalfEven_int)
    then have "real_of_int (roundHalfEven (?x / 2 powi k')) = ?x / 2 powi k'"
      by (simp only: q)
    then show ?thesis by simp
  qed
  have ax: "\<bar>?x\<bar> = ?x" using pos by simp
  show ?thesis
    using pos lt unfolding round64_def Let_def ax k'_def [symmetric] r
    by (simp del: power_int_numeral)
qed

lemma round64_int:
  assumes "0 \<le> n" "n < 2 ^ 53"
  shows "round64 (of_int n) = Fin (of_int n)"
proof (cases "n = 0")
  case True
  then show ?thesis by (simp add: round64_def)
next
  case False
  then have "0 < n" using assms by simp
  from round64_exact [OF this assms(2), of 0] show ?thesis by simp
qed

lemma round64_rel:
  assumes "2 powi (- 1022) \<le> x" "x < 2 powi 1023"
  shows "\<exists>y. round64 x = Fin y \<and> \<bar>y - x\<bar> \<le> x * 2 powi (- 53)"
proof -
  have "0 < (2::real) powi (- 1022)" by (rule zero_less_power_int) simp
  then have pos: "0 < x" using assms(1) by linarith
  have lt: "x < 2 powi 1024"
    using assms(2) two_powi_le_iff [of 1023 1024] by simp
  define b where "b = binade x"
  from binade_spec [OF pos lt] have
    up: "x < 2 powi (b + 1)" and lo: "2 powi b \<le> x \<or> b = - 1074" and ub: "b \<le> 1023"
    by (auto simp: b_def)
  have "2 powi (- 1022) < (2::real) powi (b + 1)" using assms(1) up by simp
  then have "- 1022 < b + 1" by (rule iffD1 [OF two_powi_less_iff])
  then have bl: "- 1022 \<le> b" by simp
  then have lo': "2 powi b \<le> x" using lo by auto
  have k: "max (b - 52) (- 1074) = b - 52" using bl by simp
  define m where "m = roundHalfEven (x / 2 powi (b - 52))"
  define y where "y = real_of_int m * 2 powi (b - 52)"
  have "\<bar>real_of_int m - x / 2 powi (b - 52)\<bar> \<le> 1 / 2"
    unfolding m_def by (rule roundHalfEven_error)
  then have "\<bar>real_of_int m - x / 2 powi (b - 52)\<bar> * 2 powi (b - 52) \<le> 1 / 2 * 2 powi (b - 52)"
    by (intro mult_right_mono) auto
  also have "\<bar>real_of_int m - x / 2 powi (b - 52)\<bar> * 2 powi (b - 52) = \<bar>y - x\<bar>"
  proof -
    have "\<bar>real_of_int m - x / 2 powi (b - 52)\<bar> * 2 powi (b - 52) =
        \<bar>(real_of_int m - x / 2 powi (b - 52)) * 2 powi (b - 52)\<bar>"
      by (simp add: abs_mult)
    also have "(real_of_int m - x / 2 powi (b - 52)) * 2 powi (b - 52) = y - x"
      by (simp add: y_def left_diff_distrib)
    finally show ?thesis .
  qed
  also have "1 / 2 * 2 powi (b - 52) = (2::real) powi b * 2 powi (- 53)"
  proof -
    have a: "(2::real) powi (b + (- 53)) = 2 powi b * 2 powi (- 53)"
      by (rule power_int_add) simp
    have c: "(2::real) powi ((b - 52) + (- 1)) = 2 powi (b - 52) * 2 powi (- 1)"
      by (rule power_int_add) simp
    have "b + (- 53) = (b - 52) + (- 1)" by simp
    then have "(2::real) powi b * 2 powi (- 53) = 2 powi (b - 52) * 2 powi (- 1)"
      using a c by metis
    moreover have "(2::real) powi (- 1) = 1 / 2" by (simp add: power_int_minus field_simps)
    ultimately show ?thesis by (simp only: mult.commute)
  qed
  finally have err: "\<bar>y - x\<bar> \<le> 2 powi b * 2 powi (- 53)" .
  also have "\<dots> \<le> x * 2 powi (- 53)"
    using lo' by (intro mult_right_mono) auto
  finally have rel: "\<bar>y - x\<bar> \<le> x * 2 powi (- 53)" .
  have "2 powi (- 53) \<le> (2::real) powi 0" by (subst two_powi_le_iff) simp
  then have "2 powi (- 53) \<le> (1::real)" by simp
  then have "x * 2 powi (- 53) \<le> x * 1" using pos by (intro mult_left_mono) auto
  then have "y \<le> 2 * x" using rel by linarith
  also have "\<dots> < 2 * 2 powi 1023" using assms(2) by simp
  also have "\<dots> = 2 powi (1023 + 1)" by (simp only: two_powi_Suc)
  finally have nov: "\<not> 2 powi 1024 \<le> y" by simp
  have ax: "\<bar>x\<bar> = x" using pos by simp
  have "round64 x = Fin y"
    using pos nov unfolding round64_def Let_def ax b_def [symmetric] k m_def [symmetric] y_def [symmetric]
    by (simp del: power_int_numeral)
  then show ?thesis using rel by blast
qed

lemma round64_normal:
  assumes "0 < x" "- 1074 \<le> k" "k \<le> 970" "x < 2 powi (k + 53)"
    "k = - 1074 \<or> 2 powi (k + 52) \<le> x"
    "\<bar>x / 2 powi k - of_int m\<bar> < 1 / 2"
  shows "round64 x = Fin (real_of_int m * 2 powi k)"
proof -
  have "x / 2 powi k < 2 powi (k + 53) / 2 powi k"
    using assms(4) by (intro divide_strict_right_mono) auto
  also have "(2::real) powi (k + 53) / 2 powi k = 2 ^ 53"
    by (simp add: power_int_add)
  finally have "real_of_int m < 2 ^ 53 + 1 / 2" using assms(6) by linarith
  then have "real_of_int m < real_of_int (2 ^ 53 + 1)" by simp
  then have "m < 2 ^ 53 + 1" by (simp only: of_int_less_iff)
  then have "m \<le> 2 ^ 53" by simp
  then have "real_of_int m \<le> real_of_int (2 ^ 53)" by (simp only: of_int_le_iff)
  then have "real_of_int m \<le> 2 ^ 53" by simp
  then have "real_of_int m * 2 powi k \<le> 2 ^ 53 * 2 powi k"
    by (intro mult_right_mono) auto
  also have "\<dots> = 2 powi (k + 53)" by (simp add: power_int_add)
  also have "\<dots> < 2 powi 1024" using assms(3) by (subst two_powi_less_iff) simp
  finally have "\<not> 2 powi 1024 \<le> real_of_int m * 2 powi k" by simp
  then show ?thesis
    using round64_near [OF assms(1) assms(2) _ assms(4-6)] assms(3) by simp
qed

lemma round64_0 [simp]: "round64 0 = Fin 0"
  by (simp add: round64_def)

lemma round64_1 [simp]: "round64 1 = Fin 1"
  using round64_int [of 1] by simp

lemma round64_numeral:
  "numeral w < (2::int) ^ 53 \<Longrightarrow> round64 (numeral w) = Fin (numeral w)"
  using round64_int [of "numeral w"] by simp

lemma DEBT_TO_INCOME_RATIO64_value:
  "DEBT_TO_INCOME_RATIO64 = Fin (6004799503160661 / 18014398509481984)"
  using round64_normal [of "1 / 3" "- 54" 6004799503160661]
  by (simp add: DEBT_TO_INCOME_RATIO64_def)

lemma installment64_2500:
  "calculateMaxMonthlyInstallment64 (Fin 2500) = Fin (3665038759253333 / 4398046511104)"
  using round64_normal [of "2500 * (6004799503160661 / 18014398509481984)" "- 43" 7330077518506666]
  by (simp add: calculateMaxMonthlyInstallment64_def DEBT_TO_INCOME_RATIO64_value)

lemma fdiv_2500_3: "fdiv (Fin 2500) (Fin 3) = Fin (7330077518506667 / 8796093022208)"
  using round64_normal [of "2500 / 3" "- 43" 7330077518506667] by simp

lemma installment64_rel:
  assumes "2 powi (- 1020) \<le> x" "x < 2 powi 1024"
  shows "\<exists>y. calculateMaxMonthlyInstallment64 (Fin x) = Fin y
             \<and> \<bar>y - x / 3\<bar> \<le> x / 3 * 2 powi (- 52)"
proof -
  define p where "p = x * (6004799503160661 / 18014398509481984)"
  have "0 < (2::real) powi (- 1020)" by (rule zero_less_power_int) simp
  then have pos: "0 < x" using assms(1) by linarith
  have p3: "p = x / 3 - x / 3 * 2 powi (- 54)"
    by (simp add: p_def field_simps)
  have "2 powi (- 1022) = (2::real) powi (- 1020) * 2 powi (- 2)"
    using power_int_add [of "2::real" "- 1020" "- 2"] by simp
  also have "\<dots> \<le> x * 2 powi (- 2)"
    using assms(1) by (intro mult_right_mono) auto
  also have "\<dots> \<le> p" using pos by (simp add: p_def)
  finally have lo: "2 powi (- 1022) \<le> p" .
  have "p \<le> x * 2 powi (- 1)" using pos by (simp add: p_def)
  also have "\<dots> < 2 powi 1024 * 2 powi (- 1)"
    using assms(2) by (intro mult_strict_right_mono) auto
  also have "\<dots> = (2::real) powi 1023"
    using power_int_add [of "2::real" 1024 "- 1"] by simp
  finally have hi: "p < 2 powi 1023" .
  from round64_rel [OF lo hi] obtain y where
    y: "round64 p = Fin y" and err: "\<bar>y - p\<bar> \<le> p * 2 powi (- 53)" by blast
  have "calculateMaxMonthlyInstallment64 (Fin x) = Fin y"
    using pos y by (simp add: calculateMaxMonthlyInstallment64_def DEBT_TO_INCOME_RATIO64_value p_def)
  moreover have "\<bar>y - x / 3\<bar> \<le> x / 3 * 2 powi (- 52)"
  proof -
    have "p \<le> x / 3" using pos by (simp add: p_def)
    then have "p * 2 powi (- 53) \<le> x / 3 * 2 powi (- 53)"
      by (intro mult_right_mono) auto
    then have "\<bar>y - p\<bar> \<le> x / 3 * 2 powi (- 53)" using err by linarith
    moreover have "\<bar>p - x / 3\<bar> = x / 3 * 2 powi (- 54)"
      using pos by (simp add: p3)
    ultimately have "\<bar>y - x / 3\<bar> \<le> x / 3 * 2 powi (- 53) + x / 3 * 2 powi (- 54)"
      by linarith
    also have "\<dots> \<le> x / 3 * 2 powi (- 52)"
      using pos by simp
    finally show ?thesis .
  qed
  ultimately show ?thesis by blast
qed










subsection \<open>The claims\<close>

text \<open>
  Claim C1. The single-rate capacity function returns 0 when \<open>totalMonths \<le> 0\<close> or
  \<open>maxInstallment \<le> 0\<close>. Otherwise, with the monthly rate \<open>r = annualRate / 100 / 12\<close>
  for a positive annual rate and \<open>r = 0\<close> for any other, it returns
  \<open>maxInstallment * totalMonths\<close> when \<open>r = 0\<close> and
  \<open>maxInstallment / (r / (1 - (1 + r) powi (- totalMonths)))\<close> when \<open>r > 0\<close>; at the
  annual rate 0 the result is \<open>maxInstallment * totalMonths\<close>.
\<close>

theorem C1_single_rate_capacity:
  "calculateLoanPrincipalWithSingleRate mi ar tm =
     (if tm \<le> 0 \<or> mi \<le> 0 then 0
      else if (if ar > 0 then ar / 100 / 12 else 0) = 0 then mi * of_int tm
      else mi / ((if ar > 0 then ar / 100 / 12 else 0) /
                 (1 - (1 + (if ar > 0 then ar / 100 / 12 else 0)) powi (- tm))))
   \<and> (if ar > 0 then ar / 100 / 12 else 0) \<ge> 0
   \<and> calculateLoanPrincipalWithSingleRate mi 0 tm = (if tm \<le> 0 \<or> mi \<le> 0 then 0 else mi * of_int tm)"
  by (simp add: calculateLoanPrincipalWithSingleRate_def toMonthlyRate_def Let_def)

theorem C1_single_rate_capacity_witness:
  "calculateLoanPrincipalWithSingleRate 1000 12 2 = 1000 / ((1 / 100) / (1 - (1 + 1 / 100) powi (- 2)))
   \<and> calculateLoanPrincipalWithSingleRate 1000 0 240 = 1000 * 240
   \<and> calculateLoanPrincipalWithSingleRate 1000 12 0 = 0"
  using C1_single_rate_capacity [of 1000 12 2] C1_single_rate_capacity [of 1000 0 240]
    C1_single_rate_capacity [of 1000 12 0]
  by simp

text \<open>
  Claim C2. The multi-rate capacity function returns 0 when \<open>totalMonths \<le> 0\<close>,
  \<open>maxInstallment \<le> 0\<close> or the period list is empty. Otherwise it returns
  \<open>maxInstallment\<close> times the sum of the monthly discount factors, where the factor
  starts at 1, is divided by one plus the monthly rate of the current period each
  month and is carried across period boundaries (\<open>discountFactors 1\<close> over the
  periods' months in order), and where exactly \<open>min totalMonths (sum of years * 12)\<close>
  months are accumulated: that many factors are summed, and the loops' own
  \<open>monthsCount\<close> ends at that number. Period years are whole and not negative, as the
  data model of the specification has them.
\<close>

theorem C2_multi_rate_capacity:
  "calculateLoanPrincipalWithMultipleRates mi ps tm =
     (if tm \<le> 0 \<or> mi \<le> 0 \<or> ps = [] then 0
      else mi * sum_list (discountFactors 1 (take (nat tm) (periodMonthlyRates ps))))
   \<and> (0 \<le> tm \<and> (\<forall>p\<in>set ps. 0 \<le> years p) \<longrightarrow>
        int (length (take (nat tm) (periodMonthlyRates ps))) = min tm (\<Sum>p\<leftarrow>ps. years p * 12)
        \<and> snd (snd (multiOuter tm ps (0, 1, 0))) = min tm (\<Sum>p\<leftarrow>ps. years p * 12))"
proof -
  let ?rs = "take (nat tm) (periodMonthlyRates ps)"
  have "snd (snd (multiOuter tm ps (0, 1, 0))) = int (length ?rs)"
    by (simp add: multiOuter_walk walkMonths_count del: length_take)
  moreover have "0 \<le> tm \<and> (\<forall>p\<in>set ps. 0 \<le> years p) \<longrightarrow>
        int (length ?rs) = min tm (\<Sum>p\<leftarrow>ps. years p * 12)"
    using length_periodMonthlyRates [of ps] by auto
  ultimately show ?thesis
    using multiple_rates_as_sum [of mi ps tm] by simp
qed

theorem C2_multi_rate_capacity_witness:
  "calculateLoanPrincipalWithMultipleRates 1000
      [\<lparr>years = 1, rate = 12\<rparr>, \<lparr>years = 1, rate = 24\<rparr>] 14 =
     1000 * sum_list (discountFactors 1 (replicate 12 (1 / 100) @ replicate 2 (2 / 100)))
   \<and> snd (snd (multiOuter 14 [\<lparr>years = 1, rate = 12\<rparr>, \<lparr>years = 1, rate = 24\<rparr>] (0, 1, 0))) = 14
   \<and> calculateLoanPrincipalWithMultipleRates 1000 [] 14 = 0"
  using C2_multi_rate_capacity [of 1000 "[\<lparr>years = 1, rate = 12\<rparr>, \<lparr>years = 1, rate = 24\<rparr>]" 14]
    C2_multi_rate_capacity [of 1000 "[]" 14]
  by (simp add: periodMonthlyRates_def toMonthlyRate_def)

text \<open>
  Claim C3. In every table the amortization builder returns, the row at position \<open>k\<close>
  (month \<open>k + 1\<close>) has \<open>interest = capitalBefore * monthlyRates[k]\<close>, with rate 0
  when the index is outside the rate vector, \<open>amortization = installment - interest\<close>
  and \<open>capitalAfter = max (capitalBefore - amortization) 0\<close>; the first row's
  \<open>capitalBefore\<close> is the principal and every later row's \<open>capitalBefore\<close> is the
  \<open>capitalAfter\<close> of the row before it.
\<close>

theorem C3_amortization_rows:
  assumes "k < length (buildAmortizationTable p inst rs tm)"
  shows "month (buildAmortizationTable p inst rs tm ! k) = int k + 1
    \<and> installment (buildAmortizationTable p inst rs tm ! k) = inst
    \<and> interest (buildAmortizationTable p inst rs tm ! k) =
        capitalBefore (buildAmortizationTable p inst rs tm ! k) * (if k < length rs then rs ! k else 0)
    \<and> amortization (buildAmortizationTable p inst rs tm ! k) =
        inst - interest (buildAmortizationTable p inst rs tm ! k)
    \<and> capitalAfter (buildAmortizationTable p inst rs tm ! k) =
        max (capitalBefore (buildAmortizationTable p inst rs tm ! k)
             - amortization (buildAmortizationTable p inst rs tm ! k)) 0
    \<and> capitalBefore (buildAmortizationTable p inst rs tm ! k) =
        (if k = 0 then p else capitalAfter (buildAmortizationTable p inst rs tm ! (k - 1)))"
proof -
  let ?t = "buildAmortizationTable p inst rs tm"
  have t: "?t = amortLoop inst rs tm 1 p []"
    using assms by (auto simp: buildAmortizationTable_def split: if_splits)
  have "rowsFrom inst rs 1 p ?t"
    unfolding t by (rule amortLoop_rowsFrom)
  from rowsFrom_nth [OF this assms]
  show ?thesis by (simp add: rateAt_def)
qed

theorem C3_amortization_rows_witness:
  "2 < length (buildAmortizationTable 1000 400 [1 / 100, 1 / 100] 5)
   \<and> month (buildAmortizationTable 1000 400 [1 / 100, 1 / 100] 5 ! 2) = 3
   \<and> capitalBefore (buildAmortizationTable 1000 400 [1 / 100, 1 / 100] 5 ! 2) = 2161 / 10
   \<and> interest (buildAmortizationTable 1000 400 [1 / 100, 1 / 100] 5 ! 2) = 0
   \<and> amortization (buildAmortizationTable 1000 400 [1 / 100, 1 / 100] 5 ! 2) = 400
   \<and> capitalAfter (buildAmortizationTable 1000 400 [1 / 100, 1 / 100] 5 ! 2) = 0
   \<and> capitalAfter (buildAmortizationTable 1000 400 [1 / 100, 1 / 100] 5 ! 1) = 2161 / 10"
proof -
  have t: "buildAmortizationTable 1000 400 [1 / 100, 1 / 100] 5 =
     [\<lparr>month = 1, capitalBefore = 1000, interest = 10, amortization = 390,
        installment = 400, capitalAfter = 610\<rparr>,
      \<lparr>month = 2, capitalBefore = 610, interest = 61 / 10, amortization = 3939 / 10,
        installment = 400, capitalAfter = 2161 / 10\<rparr>,
      \<lparr>month = 3, capitalBefore = 2161 / 10, interest = 0, amortization = 400,
        installment = 400, capitalAfter = 0\<rparr>]"
    by (simp add: buildAmortizationTable_def amortLoop_rows newRow_def rateAt_def)
  have len: "2 < length (buildAmortizationTable 1000 400 [1 / 100, 1 / 100] 5)"
    by (simp add: t)
  from C3_amortization_rows [OF len] len show ?thesis
    by (simp add: t)
qed

text \<open>
  Claim C4. The effective mode \<open>usePeriods \<and> \<not> periodsMismatch\<close> is multi exactly
  when the chosen mode is multi, the period list is not empty and the period years
  sum to \<open>durationYears\<close>. The capacity \<open>maxLoanPrincipal\<close> and the rate vector
  \<open>monthlyRates\<close> both branch on that one condition: the multi-rate function and the
  multi expansion when it holds, the single-rate function and the single expansion
  with \<open>interestRate\<close> in every other case.
\<close>

theorem C4_effective_mode:
  "((usePeriods inp \<and> \<not> periodsMismatch inp) =
      (rateMode inp = Multi \<and> ratePeriods inp \<noteq> []
        \<and> (\<Sum>p\<leftarrow>ratePeriods inp. years p) = durationYears inp))
   \<and> maxLoanPrincipal inp =
       (if rateMode inp = Multi \<and> ratePeriods inp \<noteq> []
           \<and> (\<Sum>p\<leftarrow>ratePeriods inp. years p) = durationYears inp
        then calculateLoanPrincipalWithMultipleRates (maxMonthlyInstallment inp)
               (ratePeriods inp) (totalMonths inp)
        else calculateLoanPrincipalWithSingleRate (maxMonthlyInstallment inp)
               (interestRate inp) (totalMonths inp))
   \<and> monthlyRates inp =
       buildMonthlyRatesArray
         (if rateMode inp = Multi \<and> ratePeriods inp \<noteq> []
             \<and> (\<Sum>p\<leftarrow>ratePeriods inp. years p) = durationYears inp
          then Multi else Single)
         (ratePeriods inp) (interestRate inp) (totalMonths inp)"
proof -
  have eff: "(usePeriods inp \<and> \<not> periodsMismatch inp) =
      (rateMode inp = Multi \<and> ratePeriods inp \<noteq> []
        \<and> (\<Sum>p\<leftarrow>ratePeriods inp. years p) = durationYears inp)"
    by (auto simp: usePeriods_def periodsMismatch_def periodsYearsTotal_def periodsActive_def
        sumPeriodYears_sum_list)
  have zero: "maxMonthlyInstallment inp \<le> 0 \<Longrightarrow>
      calculateLoanPrincipalWithMultipleRates (maxMonthlyInstallment inp) ps tm = 0
      \<and> calculateLoanPrincipalWithSingleRate (maxMonthlyInstallment inp) ar tm = 0" for ps tm ar
    by (simp add: calculateLoanPrincipalWithMultipleRates_def calculateLoanPrincipalWithSingleRate_def)
  have "maxLoanPrincipal inp =
       (if usePeriods inp \<and> \<not> periodsMismatch inp
        then calculateLoanPrincipalWithMultipleRates (maxMonthlyInstallment inp)
               (ratePeriods inp) (totalMonths inp)
        else calculateLoanPrincipalWithSingleRate (maxMonthlyInstallment inp)
               (interestRate inp) (totalMonths inp))"
    using zero by (simp add: maxLoanPrincipal_def)
  moreover have "monthlyRates inp =
       buildMonthlyRatesArray (if usePeriods inp \<and> \<not> periodsMismatch inp then Multi else Single)
         (ratePeriods inp) (interestRate inp) (totalMonths inp)"
    by (simp add: monthlyRates_def)
  ultimately show ?thesis
    unfolding eff using eff by simp
qed

theorem C4_effective_mode_witness:
  "maxLoanPrincipal \<lparr>rateMode = Multi, monthlyIncome = 3000, interestRate = 0, durationYears = 5,
      ratePeriods = [\<lparr>years = 4, rate = 12\<rparr>]\<rparr> = 1000 * 60
   \<and> monthlyRates \<lparr>rateMode = Multi, monthlyIncome = 3000, interestRate = 0, durationYears = 5,
      ratePeriods = [\<lparr>years = 4, rate = 12\<rparr>]\<rparr> = Inr (replicate 60 0)
   \<and> monthlyRates \<lparr>rateMode = Multi, monthlyIncome = 3000, interestRate = 0, durationYears = 1,
      ratePeriods = [\<lparr>years = 1, rate = 12\<rparr>]\<rparr> = Inr (replicate 12 (1 / 100))"
  using C4_effective_mode [of "\<lparr>rateMode = Multi, monthlyIncome = 3000, interestRate = 0,
      durationYears = 5, ratePeriods = [\<lparr>years = 4, rate = 12\<rparr>]\<rparr>"]
    C4_effective_mode [of "\<lparr>rateMode = Multi, monthlyIncome = 3000, interestRate = 0,
      durationYears = 1, ratePeriods = [\<lparr>years = 1, rate = 12\<rparr>]\<rparr>"]
  by (simp add: maxMonthlyInstallment_def calculateMaxMonthlyInstallment_def
      DEBT_TO_INCOME_RATIO_def totalMonths_def calculateLoanPrincipalWithSingleRate_def
      toMonthlyRate_def buildMonthlyRatesArray_Single buildMonthlyRatesArray_Multi
      periodMonthlyRates_def)

text \<open>
  Claim C5, in double precision. For \<open>monthlyIncome > 0\<close> the affordability function
  returns the double product of \<open>monthlyIncome\<close> and \<open>DEBT_TO_INCOME_RATIO\<close>, the
  double nearest \<open>1 / 3\<close> (\<open>6004799503160661 / 2 ^ 54\<close>). For a finite income from
  \<open>2 powi (- 1020)\<close> on, that is \<open>monthlyIncome / 3\<close> to within a relative error of
  \<open>2 powi (- 52)\<close>; it need not be the double \<open>monthlyIncome / 3\<close>. The function
  returns 0 when \<open>monthlyIncome \<le> 0\<close> and for NaN.
\<close>

theorem C5_affordability:
  "calculateMaxMonthlyInstallment64 (Fin x) =
     (if 0 < x then fmul (Fin x) (fdiv (Fin 1) (Fin 3)) else Fin 0)
   \<and> fdiv (Fin 1) (Fin 3) = Fin (6004799503160661 / 18014398509481984)
   \<and> (2 powi (- 1020) \<le> x \<and> x < 2 powi 1024 \<longrightarrow>
        (\<exists>y. calculateMaxMonthlyInstallment64 (Fin x) = Fin y
             \<and> \<bar>y - x / 3\<bar> \<le> x / 3 * 2 powi (- 52)))
   \<and> calculateMaxMonthlyInstallment64 PInf = PInf
   \<and> calculateMaxMonthlyInstallment64 NInf = Fin 0
   \<and> calculateMaxMonthlyInstallment64 NaN = Fin 0"
proof -
  have "calculateMaxMonthlyInstallment64 (Fin x) =
     (if 0 < x then fmul (Fin x) (fdiv (Fin 1) (Fin 3)) else Fin 0)"
    by (simp only: calculateMaxMonthlyInstallment64_def DEBT_TO_INCOME_RATIO64_def fgt0.simps)
  moreover have "fdiv (Fin 1) (Fin 3) = Fin (6004799503160661 / 18014398509481984)"
    using DEBT_TO_INCOME_RATIO64_value by (simp only: DEBT_TO_INCOME_RATIO64_def)
  moreover have "calculateMaxMonthlyInstallment64 PInf = PInf"
    by (simp add: calculateMaxMonthlyInstallment64_def DEBT_TO_INCOME_RATIO64_value inf_of_sign_def)
  moreover have "calculateMaxMonthlyInstallment64 NInf = Fin 0"
    "calculateMaxMonthlyInstallment64 NaN = Fin 0"
    by (simp_all add: calculateMaxMonthlyInstallment64_def)
  ultimately show ?thesis using installment64_rel [of x] by blast
qed

theorem C5_affordability_witness:
  "calculateMaxMonthlyInstallment64 (Fin 2600) = Fin (7623280619246933 / 8796093022208)
   \<and> (\<exists>y. calculateMaxMonthlyInstallment64 (Fin 2600) = Fin y
          \<and> \<bar>y - 2600 / 3\<bar> \<le> 2600 / 3 * 2 powi (- 52))
   \<and> calculateMaxMonthlyInstallment64 (Fin (- 5)) = Fin 0"
proof -
  have v: "calculateMaxMonthlyInstallment64 (Fin 2600) = Fin (7623280619246933 / 8796093022208)"
    using C5_affordability [of 2600]
      round64_normal [of "2600 * (6004799503160661 / 18014398509481984)" "- 43" 7623280619246933]
    by simp
  have r: "2 powi (- 1020) \<le> (2600::real) \<and> (2600::real) < 2 powi 1024"
  proof
    have "(2::real) powi (- 1020) \<le> 2 powi 0" by (subst two_powi_le_iff) simp
    then show "2 powi (- 1020) \<le> (2600::real)" by simp
    have "(2::real) powi 12 \<le> 2 powi 1024" by (subst two_powi_le_iff) simp
    then show "(2600::real) < 2 powi 1024" by simp
  qed
  have "\<exists>y. calculateMaxMonthlyInstallment64 (Fin 2600) = Fin y
          \<and> \<bar>y - 2600 / 3\<bar> \<le> 2600 / 3 * 2 powi (- 52)"
    using C5_affordability [of 2600] r by blast
  moreover have "calculateMaxMonthlyInstallment64 (Fin (- 5)) = Fin 0"
    using C5_affordability [of "- 5"] by simp
  ultimately show ?thesis using v by blast
qed

text \<open>
  Claim C5 as first stated asks for exactly \<open>monthlyIncome / 3\<close>. At 2500 the product
  with the double third is 833.3333333333333 (\<open>7330077518506666 / 2 ^ 43\<close>) and the
  quotient by 3 is 833.3333333333334 (\<open>7330077518506667 / 2 ^ 43\<close>).
\<close>

theorem C5_exact_third_counterexample:
  "calculateMaxMonthlyInstallment64 (Fin 2500) = Fin (3665038759253333 / 4398046511104)
   \<and> fdiv (Fin 2500) (Fin 3) = Fin (7330077518506667 / 8796093022208)
   \<and> calculateMaxMonthlyInstallment64 (Fin 2500) \<noteq> fdiv (Fin 2500) (Fin 3)"
  by (simp only: installment64_2500 fdiv_2500_3) simp

text \<open>
  Claim C6. The amortization builder returns the empty table when \<open>principal \<le> 0\<close>
  or \<open>totalMonths \<le> 0\<close>. Otherwise the table is not empty and has at most
  \<open>totalMonths\<close> rows; a row whose \<open>capitalAfter\<close> is not positive is the last row
  (the loop stops right after the first such row); a table shorter than
  \<open>totalMonths\<close> ends on such a row; and a table of exactly \<open>totalMonths\<close> rows has
  a positive \<open>capitalAfter\<close> in every row before the last.
\<close>

theorem C6_amortization_length:
  "(p \<le> 0 \<or> tm \<le> 0 \<longrightarrow> buildAmortizationTable p inst rs tm = [])
   \<and> (0 < p \<and> 0 < tm \<longrightarrow>
        buildAmortizationTable p inst rs tm \<noteq> []
      \<and> int (length (buildAmortizationTable p inst rs tm)) \<le> tm
      \<and> (k < length (buildAmortizationTable p inst rs tm)
           \<and> capitalAfter (buildAmortizationTable p inst rs tm ! k) \<le> 0
          \<longrightarrow> Suc k = length (buildAmortizationTable p inst rs tm))
      \<and> (int (length (buildAmortizationTable p inst rs tm)) < tm
          \<longrightarrow> capitalAfter (last (buildAmortizationTable p inst rs tm)) \<le> 0)
      \<and> (int (length (buildAmortizationTable p inst rs tm)) = tm
           \<and> Suc k < length (buildAmortizationTable p inst rs tm)
          \<longrightarrow> 0 < capitalAfter (buildAmortizationTable p inst rs tm ! k)))"
proof (cases "0 < p \<and> 0 < tm")
  case False
  then show ?thesis by (auto simp: buildAmortizationTable_def)
next
  case True
  let ?t = "buildAmortizationTable p inst rs tm"
  have t: "?t = amortLoop inst rs tm 1 p []"
    using True by (simp add: buildAmortizationTable_def)
  have ne: "?t \<noteq> []"
    unfolding t using True by (intro amortLoop_nonempty) simp
  have len: "int (length ?t) \<le> tm"
    unfolding t using amortLoop_length [of inst rs tm 1 p] True by simp
  have stop: "Suc j < length ?t \<Longrightarrow> 0 < capitalAfter (?t ! j)" for j
    unfolding t by (rule amortLoop_stop)
  have short: "int (length ?t) < tm \<longrightarrow> capitalAfter (last ?t) \<le> 0"
    unfolding t using amortLoop_short [of 1 tm inst rs p] True by simp
  have first: "k < length ?t \<and> capitalAfter (?t ! k) \<le> 0 \<longrightarrow> Suc k = length ?t"
    using stop [of k] by (cases "Suc k < length ?t") auto
  show ?thesis
    using True ne len short first stop [of k] by simp
qed

theorem C6_amortization_length_witness:
  "buildAmortizationTable 0 400 [1 / 100, 1 / 100] 5 = []
   \<and> buildAmortizationTable 1000 400 [1 / 100, 1 / 100] 0 = []
   \<and> length (buildAmortizationTable 1000 400 [1 / 100, 1 / 100] 5) = 3
   \<and> capitalAfter (last (buildAmortizationTable 1000 400 [1 / 100, 1 / 100] 5)) \<le> 0
   \<and> 0 < capitalAfter (buildAmortizationTable 1000 400 [1 / 100, 1 / 100] 5 ! 1)"
proof -
  have t: "buildAmortizationTable 1000 400 [1 / 100, 1 / 100] 5 =
     [\<lparr>month = 1, capitalBefore = 1000, interest = 10, amortization = 390,
        installment = 400, capitalAfter = 610\<rparr>,
      \<lparr>month = 2, capitalBefore = 610, interest = 61 / 10, amortization = 3939 / 10,
        installment = 400, capitalAfter = 2161 / 10\<rparr>,
      \<lparr>month = 3, capitalBefore = 2161 / 10, interest = 0, amortization = 400,
        installment = 400, capitalAfter = 0\<rparr>]"
    by (simp add: buildAmortizationTable_def amortLoop_rows newRow_def rateAt_def)
  have "buildAmortizationTable 0 400 [1 / 100, 1 / 100] 5 = []"
    using C6_amortization_length [of 0 5 400 "[1 / 100, 1 / 100]" 0] by simp
  moreover have "buildAmortizationTable 1000 400 [1 / 100, 1 / 100] 0 = []"
    using C6_amortization_length [of 1000 0 400 "[1 / 100, 1 / 100]" 0] by simp
  moreover have "capitalAfter (last (buildAmortizationTable 1000 400 [1 / 100, 1 / 100] 5)) \<le> 0"
    using C6_amortization_length [of 1000 5 400 "[1 / 100, 1 / 100]" 0] by (simp add: t)
  ultimately show ?thesis by (simp add: t)
qed







text \<open>
  Claim C9. The rate-vector expansion produces exactly \<open>totalMonths\<close> per-month rates.
  In single mode each of the \<open>totalMonths\<close> entries is the monthly equivalent of the
  single annual rate (\<open>annualRate / 100 / 12\<close>, or 0 when \<open>annualRate \<le> 0\<close>). In multi
  mode the periods are expanded in order into \<open>years * 12\<close> entries each, every entry
  carrying its period's monthly-equivalent rate, truncated at \<open>totalMonths\<close> entries;
  that makes \<open>totalMonths\<close> entries when the periods cover the duration, which the
  caller sees to: the component selects multi mode only when the period years sum to
  \<open>durationYears\<close>, so its \<open>monthlyRates\<close> has exactly \<open>totalMonths\<close> entries in
  every state. \<open>totalMonths\<close> is a month count an array can hold: from 0 to below
  \<open>2^32\<close>.
\<close>

theorem C9_rate_vector_expansion:
  "(0 \<le> tm \<and> tm < 2 ^ 32 \<longrightarrow>
      buildMonthlyRatesArray Single ps sr tm =
        Inr (replicate (nat tm) (if sr > 0 then sr / 100 / 12 else 0))
      \<and> int (length (replicate (nat tm) (if sr > 0 then sr / 100 / 12 else 0))) = tm
      \<and> buildMonthlyRatesArray Multi ps sr tm = Inr (take (nat tm) (periodMonthlyRates ps))
      \<and> (tm \<le> (\<Sum>p\<leftarrow>ps. years p * 12) \<longrightarrow>
           int (length (take (nat tm) (periodMonthlyRates ps))) = tm))
   \<and> (0 \<le> durationYears inp \<and> totalMonths inp < 2 ^ 32 \<longrightarrow>
        (\<exists>rs. monthlyRates inp = Inr rs \<and> int (length rs) = totalMonths inp))"
proof -
  have len: "int (length (take (nat n) (periodMonthlyRates qs))) = n"
    if "0 \<le> n" "n \<le> (\<Sum>p\<leftarrow>qs. years p * 12)" for n qs
    using that length_periodMonthlyRates_ge [of qs] by simp
  have small: "\<not> 2 ^ 32 \<le> length (take (nat n) (periodMonthlyRates qs))"
    if "n < 2 ^ 32" for n :: int and qs
  proof -
    have "length (take (nat n) (periodMonthlyRates qs)) \<le> nat n" by simp
    moreover have "nat n < 2 ^ 32" using that by (simp add: nat_less_iff)
    ultimately show ?thesis by linarith
  qed
  have fn: "buildMonthlyRatesArray Single ps sr tm =
        Inr (replicate (nat tm) (if sr > 0 then sr / 100 / 12 else 0))
      \<and> int (length (replicate (nat tm) (if sr > 0 then sr / 100 / 12 else 0))) = tm
      \<and> buildMonthlyRatesArray Multi ps sr tm = Inr (take (nat tm) (periodMonthlyRates ps))
      \<and> (tm \<le> (\<Sum>p\<leftarrow>ps. years p * 12) \<longrightarrow>
           int (length (take (nat tm) (periodMonthlyRates ps))) = tm)"
    if "0 \<le> tm" "tm < 2 ^ 32"
    using that small [of tm ps] len [of tm ps]
    by (simp add: buildMonthlyRatesArray_Single buildMonthlyRatesArray_Multi toMonthlyRate_def
        del: length_take)
  have comp: "\<exists>rs. monthlyRates inp = Inr rs \<and> int (length rs) = totalMonths inp"
    if d: "0 \<le> durationYears inp" and b: "totalMonths inp < 2 ^ 32"
  proof (cases "usePeriods inp \<and> \<not> periodsMismatch inp")
    case True
    then have "sumPeriodYears (ratePeriods inp) = durationYears inp"
      by (auto simp: periodsMismatch_def periodsYearsTotal_def)
    then have "(\<Sum>p\<leftarrow>ratePeriods inp. years p * 12) = totalMonths inp"
      by (simp add: sumPeriodYears_sum_list totalMonths_def sum_list_mult_const)
    then have "int (length (take (nat (totalMonths inp)) (periodMonthlyRates (ratePeriods inp)))) =
        totalMonths inp"
      using d by (intro len) (simp_all add: totalMonths_def)
    then show ?thesis
      using True small [OF b, of "ratePeriods inp"]
      by (simp add: monthlyRates_def buildMonthlyRatesArray_Multi del: length_take)
  next
    case False
    then show ?thesis
      using d b by (auto simp: monthlyRates_def buildMonthlyRatesArray_Single totalMonths_def)
  qed
  show ?thesis using fn comp by blast
qed

theorem C9_rate_vector_expansion_witness:
  "buildMonthlyRatesArray Single [] 12 3 = Inr [1 / 100, 1 / 100, 1 / 100]
   \<and> buildMonthlyRatesArray Multi [\<lparr>years = 1, rate = 12\<rparr>, \<lparr>years = 1, rate = 24\<rparr>] 0 14 =
       Inr (replicate 12 (1 / 100) @ replicate 2 (2 / 100))
   \<and> length (replicate 12 (1 / 100 :: real) @ replicate 2 (2 / 100)) = 14
   \<and> (\<exists>rs. monthlyRates \<lparr>rateMode = Multi, monthlyIncome = 3000, interestRate = 0,
          durationYears = 5, ratePeriods = [\<lparr>years = 4, rate = 12\<rparr>]\<rparr> = Inr rs
        \<and> int (length rs) = 60)"
proof -
  let ?inp = "\<lparr>rateMode = Multi, monthlyIncome = 3000, interestRate = 0,
      durationYears = 5, ratePeriods = [\<lparr>years = 4, rate = 12\<rparr>]\<rparr>"
  have "buildMonthlyRatesArray Single [] 12 3 = Inr [1 / 100, 1 / 100, 1 / 100]"
    using C9_rate_vector_expansion [of 3 "[]" 12 ?inp] by (simp add: numeral_3_eq_3)
  moreover have "buildMonthlyRatesArray Multi
        [\<lparr>years = 1, rate = 12\<rparr>, \<lparr>years = 1, rate = 24\<rparr>] 0 14 =
      Inr (replicate 12 (1 / 100) @ replicate 2 (2 / 100))"
    using C9_rate_vector_expansion [of 14 "[\<lparr>years = 1, rate = 12\<rparr>, \<lparr>years = 1, rate = 24\<rparr>]" 0 ?inp]
    by (simp add: periodMonthlyRates_def toMonthlyRate_def)
  moreover have "\<exists>rs. monthlyRates ?inp = Inr rs \<and> int (length rs) = 60"
    using C9_rate_vector_expansion [of 0 "[]" 0 ?inp] by (simp add: totalMonths_def)
  ultimately show ?thesis by simp
qed

text \<open>
  Claim C10. A negative annual rate has the monthly rate 0 and so behaves as the rate
  0 does: the single-rate capacity function returns what it returns at rate 0, that
  is \<open>maxInstallment * totalMonths\<close> past its guard (and on all of
  \<open>maxInstallment \<ge> 0\<close>, \<open>totalMonths \<ge> 0\<close>), and the rate-vector expansion fills
  every month with 0, in single mode and for a period of the multi schedule.
\<close>

theorem C10_negative_rate:
  assumes "ar < 0"
  shows "toMonthlyRate ar = 0
   \<and> calculateLoanPrincipalWithSingleRate mi ar tm = calculateLoanPrincipalWithSingleRate mi 0 tm
   \<and> calculateLoanPrincipalWithSingleRate mi ar tm =
       (if tm \<le> 0 \<or> mi \<le> 0 then 0 else mi * of_int tm)
   \<and> (0 \<le> mi \<and> 0 \<le> tm \<longrightarrow> calculateLoanPrincipalWithSingleRate mi ar tm = mi * of_int tm)
   \<and> buildMonthlyRatesArray Single ps ar tm = buildMonthlyRatesArray Single ps 0 tm
   \<and> buildMonthlyRatesArray Single ps ar tm =
       (if tm < 0 \<or> 2 ^ 32 \<le> tm then Inl RangeError else Inr (replicate (nat tm) 0))
   \<and> buildMonthlyRatesArray Multi [\<lparr>years = y, rate = ar\<rparr>] sr tm =
       (if 2 ^ 32 \<le> min (nat tm) (nat (y * 12)) then Inl RangeError
        else Inr (replicate (min (nat tm) (nat (y * 12))) 0))"
  using assms
  by (auto simp: toMonthlyRate_def calculateLoanPrincipalWithSingleRate_def
      buildMonthlyRatesArray_Single buildMonthlyRatesArray_Multi periodMonthlyRates_def)

theorem C10_negative_rate_witness:
  "toMonthlyRate (- 2) = 0
   \<and> calculateLoanPrincipalWithSingleRate 1000 (- 2) 240 = 1000 * 240
   \<and> buildMonthlyRatesArray Single [] (- 2) 3 = Inr [0, 0, 0]"
  using C10_negative_rate [of "- 2" 1000 240 "[]" 1 0] C10_negative_rate [of "- 2" 1000 3 "[]" 1 0]
  by (simp add: numeral_3_eq_3 buildMonthlyRatesArray_Single toMonthlyRate_def)

end
